theory Spec2Isabelle
  imports Main
begin

section \<open>Python strings\<close>

text \<open>
  A Python \<open>str\<close> is a sequence of code points and \<open>len\<close> counts code points. The
  model uses \<open>string\<close>, one \<open>char\<close> per code point, which covers the code points
  0 to 255 (ASCII and Latin-1). On that range \<open>str.lower\<close> maps \<open>A\<close> to \<open>Z\<close>
  (65 to 90) and the Latin-1 capitals (192 to 222 except the multiplication sign 215) to the
  code point 32 above, and leaves every other code point alone.
\<close>

definition lower_char :: "char \<Rightarrow> char" where
  "lower_char c =
     (let n = (of_char c :: nat)
      in if (65 \<le> n \<and> n \<le> 90) \<or> (192 \<le> n \<and> n \<le> 222 \<and> n \<noteq> 215)
         then char_of (n + 32) else c)"

definition lower :: "string \<Rightarrow> string" where
  "lower s = map lower_char s"

text \<open>\<open>s.startswith(pre)\<close>.\<close>

fun startswith :: "string \<Rightarrow> string \<Rightarrow> bool" where
  "startswith s [] = True"
| "startswith [] (p # ps) = False"
| "startswith (c # cs) (p # ps) = (c = p \<and> startswith cs ps)"

text \<open>\<open>sub in s\<close>: \<open>sub\<close> occurs in \<open>s\<close> as a contiguous substring.\<close>

fun contains :: "string \<Rightarrow> string \<Rightarrow> bool" where
  "contains [] sub = (sub = [])"
| "contains (c # cs) sub = (startswith (c # cs) sub \<or> contains cs sub)"

text \<open>
  \<open>s.split(sep)\<close> for a separator of one character, the only kind the program uses: the
  pieces between the separators, in order; never an empty list.
\<close>

fun split_str :: "string \<Rightarrow> char \<Rightarrow> string list" where
  "split_str [] sep = [[]]"
| "split_str (c # cs) sep =
     (if c = sep then [] # split_str cs sep
      else (case split_str cs sep of
              [] \<Rightarrow> [[c]]
            | w # ws \<Rightarrow> (c # w) # ws))"

text \<open>
  \<open>s.replace(old, new)\<close>: every occurrence of \<open>old\<close>, found from left to right without
  overlap, becomes \<open>new\<close>. With an empty \<open>old\<close> Python puts \<open>new\<close> before every
  character and at the end.
\<close>

function replace :: "string \<Rightarrow> string \<Rightarrow> string \<Rightarrow> string" where
  "replace [] old new = (if old = [] then new else [])"
| "replace (c # cs) old new =
     (if old = [] then new @ c # replace cs old new
      else if startswith (c # cs) old
           then new @ replace (drop (length old) (c # cs)) old new
      else c # replace cs old new)"
  by pat_completeness auto
termination
  by (relation "measure (\<lambda>(s, old, new). length s)") auto

section \<open>The graph data\<close>

text \<open>
  A node and a link are the dictionaries the converter builds, with the keys \<open>id\<close>,
  \<open>name\<close>, \<open>type\<close>, \<open>group\<close> and \<open>source\<close>, \<open>target\<close>, \<open>type\<close>, \<open>label\<close>;
  the result is the dictionary with the keys \<open>nodes\<close> and \<open>links\<close>.
\<close>

record node =
  node_id :: string
  node_name :: string
  node_type :: string
  node_group :: int

record link =
  link_source :: string
  link_target :: string
  link_type :: string
  link_label :: string

record graph =
  nodes :: "node list"
  links :: "link list"

text \<open>
  A binding is one row of a SPARQL JSON result: a dictionary from variable names to terms,
  each term a dictionary of strings (\<open>type\<close>, \<open>value\<close>, ...).
\<close>

type_synonym rdf_term = "string \<rightharpoonup> string"
type_synonym binding = "string \<rightharpoonup> rdf_term"

text \<open>
  The dictionary \<open>nodes\<close> keeps its keys in insertion order, which
  \<open>list(nodes.values())\<close> exposes: an association list. \<open>k in d\<close> is \<open>dict_in\<close>,
  \<open>d[k] = v\<close> is \<open>dict_set\<close> (an existing key keeps its place and takes the new value,
  a new key goes to the end).
\<close>

type_synonym node_dict = "(string \<times> node) list"

definition dict_in :: "string \<Rightarrow> node_dict \<Rightarrow> bool" where
  "dict_in k d = (k \<in> set (map fst d))"

fun dict_set :: "node_dict \<Rightarrow> string \<Rightarrow> node \<Rightarrow> node_dict" where
  "dict_set [] k v = [(k, v)]"
| "dict_set ((k', v') # d) k v =
     (if k' = k then (k, v) # d else (k', v') # dict_set d k v)"

section \<open>The classification helpers\<close>

definition get_node_name :: "string \<Rightarrow> string" where
  "get_node_name uri =
     (if startswith uri ''ex:''
      then replace (replace uri ''ex:'' '''') ''resource'' ''Resource ''
      else if contains uri ''#'' then last (split_str uri (CHR ''#''))
      else if contains uri ''/'' then last (split_str uri (CHR ''/''))
      else if length uri > 30 then take 30 uri @ ''...'' else uri)"

definition get_node_type :: "string \<Rightarrow> string" where
  "get_node_type uri =
     (let uri_lower = lower uri
      in if contains uri_lower ''product'' then ''product''
         else if contains uri_lower ''location'' then ''location''
         else if contains uri_lower ''event'' then ''event''
         else if contains uri_lower ''business'' then ''business''
         else ''resource'')"

definition groups :: "string \<rightharpoonup> int" where
  "groups = [''product'' \<mapsto> 1, ''location'' \<mapsto> 2, ''event'' \<mapsto> 3, ''business'' \<mapsto> 4]"

definition get_node_group :: "string \<Rightarrow> int" where
  "get_node_group uri =
     (let node_type = get_node_type uri
      in case groups node_type of None \<Rightarrow> 0 | Some g \<Rightarrow> g)"

definition get_edge_type :: "string \<Rightarrow> string" where
  "get_edge_type predicate =
     (let predicate_lower = lower predicate
      in if contains predicate_lower ''type'' then ''type''
         else if contains predicate_lower ''has'' then ''has''
         else ''relationship'')"

definition get_edge_label :: "string \<Rightarrow> string" where
  "get_edge_label predicate =
     (if contains predicate ''#'' then last (split_str predicate (CHR ''#''))
      else if length predicate > 20 then take 20 predicate @ ''...'' else predicate)"

section \<open>The converter\<close>

text \<open>\<open>binding.get(k, {}).get('value')\<close>: \<open>None\<close> when either key is missing.\<close>

definition get_value :: "binding \<Rightarrow> string \<Rightarrow> string option" where
  "get_value binding k =
     (case binding k of None \<Rightarrow> Map.empty | Some t \<Rightarrow> t) ''value''"

text \<open>
  One round of the loop over the bindings, on the pair of the dictionary \<open>nodes\<close> and the
  list \<open>links\<close>. The test \<open>subject and predicate and object\<close> holds when none of the
  three is \<open>None\<close> or the empty string.
\<close>

definition loop_body :: "node_dict \<times> link list \<Rightarrow> binding \<Rightarrow> node_dict \<times> link list" where
  "loop_body st binding =
     (let (nd, ls) = st;
          subject = get_value binding ''s'';
          predicate = get_value binding ''p'';
          object = get_value binding ''o''
      in case (subject, predicate, object) of
           (Some s, Some p, Some ob) \<Rightarrow>
             if s \<noteq> [] \<and> p \<noteq> [] \<and> ob \<noteq> [] then
               let nd1 = (if \<not> dict_in s nd
                          then dict_set nd s
                                 \<lparr>node_id = s, node_name = get_node_name s,
                                  node_type = get_node_type s, node_group = get_node_group s\<rparr>
                          else nd);
                   nd2 = (if \<not> dict_in ob nd1
                          then dict_set nd1 ob
                                 \<lparr>node_id = ob, node_name = get_node_name ob,
                                  node_type = get_node_type ob, node_group = get_node_group ob\<rparr>
                          else nd1)
               in (nd2, ls @ [\<lparr>link_source = s, link_target = ob,
                               link_type = get_edge_type p, link_label = get_edge_label p\<rparr>])
             else st
         | _ \<Rightarrow> st)"

definition convert_sparql_to_graph :: "binding list \<Rightarrow> graph" where
  "convert_sparql_to_graph bindings =
     (let (nd, ls) = foldl loop_body ([], []) bindings
      in \<lparr>nodes = map snd nd, links = ls\<rparr>)"

section \<open>The converter on parsed JSON\<close>

text \<open>
  The bindings that \<open>test_graph_conversion\<close> hands to the converter come out of
  \<open>response.json()\<close>: any parsed JSON value, not only rows of the shape above. A parsed
  value is \<open>None\<close>, a boolean, a number, a string, a list or a dictionary; a dictionary
  is given by its items, each key once. Of a number the program only ever asks whether it
  is zero, so a number is given by an integer (0 for a float that is zero).
\<close>

datatype json =
    JNull
  | JBool bool
  | JNum int
  | JStr string
  | JArr "json list"
  | JObj "(string \<times> json) list"

text \<open>The exceptions that operations on such values, and printing, raise.\<close>

datatype error = AttributeError | KeyError | TypeError | UnicodeEncodeError

text \<open>Sequencing: the first exception ends the computation.\<close>

definition bind_err :: "error + 'a \<Rightarrow> ('a \<Rightarrow> error + 'b) \<Rightarrow> error + 'b" where
  "bind_err x f = (case x of Inl e \<Rightarrow> Inl e | Inr v \<Rightarrow> f v)"

text \<open>The truth value of \<open>x\<close> in \<open>if x\<close>, \<open>not x\<close>, \<open>x and y\<close> and \<open>all\<close>.\<close>

fun truthy :: "json \<Rightarrow> bool" where
  "truthy JNull = False"
| "truthy (JBool b) = b"
| "truthy (JNum n) = (n \<noteq> 0)"
| "truthy (JStr s) = (s \<noteq> [])"
| "truthy (JArr xs) = (xs \<noteq> [])"
| "truthy (JObj items) = (items \<noteq> [])"

text \<open>
  \<open>x.get(k, d)\<close>: only a dictionary has the method. \<open>x[k]\<close> with a string \<open>k\<close>: a
  missing key is a \<open>KeyError\<close>, and no other kind of value takes a string as index.
  \<open>len(x)\<close> and \<open>for binding in x\<close>: a string yields its characters and a dictionary
  its keys; \<open>None\<close>, a boolean and a number have no length and are not iterable.
\<close>

fun py_get :: "json \<Rightarrow> string \<Rightarrow> json \<Rightarrow> error + json" where
  "py_get (JObj items) k d = Inr (case map_of items k of None \<Rightarrow> d | Some v \<Rightarrow> v)"
| "py_get x k d = Inl AttributeError"

fun subscript :: "json \<Rightarrow> string \<Rightarrow> error + json" where
  "subscript (JObj items) k = (case map_of items k of None \<Rightarrow> Inl KeyError | Some v \<Rightarrow> Inr v)"
| "subscript x k = Inl TypeError"

fun py_len :: "json \<Rightarrow> error + nat" where
  "py_len (JStr s) = Inr (length s)"
| "py_len (JArr xs) = Inr (length xs)"
| "py_len (JObj items) = Inr (length items)"
| "py_len x = Inl TypeError"

fun py_iter :: "json \<Rightarrow> error + json list" where
  "py_iter (JArr xs) = Inr xs"
| "py_iter (JStr s) = Inr (map (\<lambda>c. JStr [c]) s)"
| "py_iter (JObj items) = Inr (map (\<lambda>item. JStr (fst item)) items)"
| "py_iter x = Inl TypeError"

text \<open>
  What the converter does with a subject or object \<open>x\<close> that passed the truth test:
  \<open>x not in nodes\<close> hashes \<open>x\<close>, and a list or a dictionary is unhashable; a number
  or \<open>True\<close> is no key of \<open>nodes\<close>, whose keys are strings, so the node is built and
  \<open>get_node_name\<close> calls \<open>x.startswith\<close>, which only a string has. With the predicate,
  \<open>get_edge_type\<close> calls \<open>predicate.lower()\<close>, which only a string has.
\<close>

fun as_uri :: "json \<Rightarrow> error + string" where
  "as_uri (JStr s) = Inr s"
| "as_uri (JArr xs) = Inl TypeError"
| "as_uri (JObj items) = Inl TypeError"
| "as_uri x = Inl AttributeError"

fun as_predicate :: "json \<Rightarrow> error + string" where
  "as_predicate (JStr p) = Inr p"
| "as_predicate x = Inl AttributeError"

text \<open>
  The loop body and the converter of the source once more, now on parsed JSON, where each
  step can raise. The three values are fetched first, in the order \<open>s\<close>, \<open>p\<close>,
  \<open>o\<close>; then subject, object and predicate are used in this order. On rows of the
  shape of \<open>binding\<close> this is \<open>loop_body\<close> and raises nothing (lemma
  \<open>loop_body_json_typed\<close> below).
\<close>

definition loop_body_json :: "node_dict \<times> link list \<Rightarrow> json \<Rightarrow> error + node_dict \<times> link list" where
  "loop_body_json st binding =
     (let (nd, ls) = st in
      bind_err (py_get binding ''s'' (JObj [])) (\<lambda>term_s.
      bind_err (py_get term_s ''value'' JNull) (\<lambda>subject.
      bind_err (py_get binding ''p'' (JObj [])) (\<lambda>term_p.
      bind_err (py_get term_p ''value'' JNull) (\<lambda>predicate.
      bind_err (py_get binding ''o'' (JObj [])) (\<lambda>term_o.
      bind_err (py_get term_o ''value'' JNull) (\<lambda>object.
        if truthy subject \<and> truthy predicate \<and> truthy object then
          bind_err (as_uri subject) (\<lambda>s.
            let nd1 = (if \<not> dict_in s nd
                       then dict_set nd s
                              \<lparr>node_id = s, node_name = get_node_name s,
                               node_type = get_node_type s, node_group = get_node_group s\<rparr>
                       else nd)
            in bind_err (as_uri object) (\<lambda>ob.
            let nd2 = (if \<not> dict_in ob nd1
                       then dict_set nd1 ob
                              \<lparr>node_id = ob, node_name = get_node_name ob,
                               node_type = get_node_type ob, node_group = get_node_group ob\<rparr>
                       else nd1)
            in bind_err (as_predicate predicate) (\<lambda>p.
               Inr (nd2, ls @ [\<lparr>link_source = s, link_target = ob,
                                 link_type = get_edge_type p, link_label = get_edge_label p\<rparr>]))))
        else Inr st)))))))"

fun run_loop :: "node_dict \<times> link list \<Rightarrow> json list \<Rightarrow> error + node_dict \<times> link list" where
  "run_loop st [] = Inr st"
| "run_loop st (binding # rest) = bind_err (loop_body_json st binding) (\<lambda>st'. run_loop st' rest)"

definition convert_sparql_to_graph_json :: "json \<Rightarrow> error + graph" where
  "convert_sparql_to_graph_json bindings =
     bind_err (py_iter bindings) (\<lambda>rows.
     bind_err (run_loop ([], []) rows) (\<lambda>(nd, ls).
       Inr \<lparr>nodes = map snd nd, links = ls\<rparr>))"

section \<open>The checks against the server\<close>

text \<open>
  The script talks to a server over HTTP and prints to a console. A request is answered
  by a response with a status code and a body, or fails with an exception (no
  connection, a timeout, ...), or is never answered: no timeout is set. The body is
  \<open>Some\<close> parsed JSON value, or \<open>None\<close> when \<open>response.json()\<close> raises. The
  server is a function from the requests made so far, the current one last, to its reply.
\<close>

datatype request = Get string | Post string string

datatype reply = Raises | Hangs | Response int "json option"

type_synonym server = "request list \<Rightarrow> reply"

text \<open>
  A call returns a value, leaves with an exception, or never returns. Each check takes
  the list of the requests made before it and gives its outcome with the list extended by
  the requests it made. \<open>and_then\<close> runs the next statement after a call that returned.
\<close>

datatype 'a outcome = Returns 'a | Raised error | Never

definition static_url :: string where
  "static_url = ''http://localhost:8082/static/working_version.html''"

definition sparql_url :: string where
  "sparql_url = ''http://localhost:8082/api/v1/sparql/query''"

definition sparql_query :: string where
  "sparql_query = ''SELECT * WHERE { ?s ?p ?o } LIMIT 15''"

definition send :: "server \<Rightarrow> request \<Rightarrow> request list \<Rightarrow> reply \<times> request list" where
  "send srv r log = (srv (log @ [r]), log @ [r])"

definition and_then ::
  "'a outcome \<times> request list \<Rightarrow> ('a \<Rightarrow> request list \<Rightarrow> 'b outcome \<times> request list)
     \<Rightarrow> 'b outcome \<times> request list" where
  "and_then x f =
     (case x of
        (Returns v, log') \<Rightarrow> f v log'
      | (Raised e, log') \<Rightarrow> (Raised e, log')
      | (Never, log') \<Rightarrow> (Never, log'))"

text \<open>
  Every line the script prints before a request carries a glyph outside ASCII, and every
  function starts with such a line, outside any \<open>try\<close>. \<open>console_ok\<close> says whether the
  console can write these glyphs: if it cannot, the first \<open>print\<close> of a function raises
  and the function does nothing else; if it can, no \<open>print\<close> raises, and the printed
  lines have no other effect on a result.

  \<open>test_sparql_api\<close> returns the parsed body or \<open>None\<close>. Every exception inside the
  \<open>try\<close>, also one of \<open>len(data['results']['bindings'])\<close> in the line it prints on
  success, ends in \<open>return None\<close>.
\<close>

definition test_sparql_api ::
  "bool \<Rightarrow> server \<Rightarrow> request list \<Rightarrow> json option outcome \<times> request list" where
  "test_sparql_api console_ok srv log =
     (if \<not> console_ok then (Raised UnicodeEncodeError, log)
      else let (response, log') = send srv (Post sparql_url sparql_query) log
           in (case response of
                 Raises \<Rightarrow> Returns None
               | Hangs \<Rightarrow> Never
               | Response status_code body \<Rightarrow>
                   if status_code = 200
                   then (case body of
                           None \<Rightarrow> Returns None
                         | Some data \<Rightarrow>
                             (case bind_err (subscript data ''results'') (\<lambda>results.
                                   bind_err (subscript results ''bindings'') py_len) of
                                Inl e \<Rightarrow> Returns None
                              | Inr n \<Rightarrow> Returns (Some data)))
                   else Returns None,
               log'))"

definition test_static_files ::
  "bool \<Rightarrow> server \<Rightarrow> request list \<Rightarrow> bool outcome \<times> request list" where
  "test_static_files console_ok srv log =
     (if \<not> console_ok then (Raised UnicodeEncodeError, log)
      else let (response, log') = send srv (Get static_url) log
           in (case response of
                 Raises \<Rightarrow> Returns False
               | Hangs \<Rightarrow> Never
               | Response status_code body \<Rightarrow>
                   if status_code = 200 then Returns True else Returns False,
               log'))"

text \<open>
  \<open>test_graph_conversion\<close> has no \<open>try\<close>: an exception of the converter leaves it.
\<close>

definition test_graph_conversion ::
  "bool \<Rightarrow> server \<Rightarrow> request list \<Rightarrow> bool outcome \<times> request list" where
  "test_graph_conversion console_ok srv log =
     (if \<not> console_ok then (Raised UnicodeEncodeError, log)
      else and_then (test_sparql_api console_ok srv log) (\<lambda>sparql_data log'.
             (case sparql_data of
                None \<Rightarrow> Returns False
              | Some data \<Rightarrow>
                  if \<not> truthy data then Returns False
                  else (case bind_err (subscript data ''results'') (\<lambda>results.
                             bind_err (subscript results ''bindings'') (\<lambda>bindings.
                             bind_err (py_len bindings) (\<lambda>n.
                             bind_err (convert_sparql_to_graph_json bindings) (\<lambda>graph_data.
                               Inr True)))) of
                          Inl e \<Rightarrow> Raised e
                        | Inr r \<Rightarrow> Returns r),
              log')))"

text \<open>
  \<open>all([static_ok, sparql_ok, conversion_ok])\<close>, where \<open>sparql_ok\<close> is the parsed
  body or \<open>None\<close>. \<open>main\<close> has no \<open>try\<close> either.
\<close>

definition truthy_result :: "json option \<Rightarrow> bool" where
  "truthy_result r = (case r of None \<Rightarrow> False | Some data \<Rightarrow> truthy data)"

definition main :: "bool \<Rightarrow> server \<Rightarrow> request list \<Rightarrow> bool outcome \<times> request list" where
  "main console_ok srv log =
     (if \<not> console_ok then (Raised UnicodeEncodeError, log)
      else and_then (test_static_files console_ok srv log) (\<lambda>static_ok log1.
           and_then (test_sparql_api console_ok srv log1) (\<lambda>sparql_ok log2.
           and_then (test_graph_conversion console_ok srv log2) (\<lambda>conversion_ok log3.
             (Returns (list_all id [static_ok, truthy_result sparql_ok, conversion_ok]), log3)))))"

section \<open>Vocabulary of the specification\<close>

text \<open>The part of \<open>s\<close> after its last \<open>c\<close> (all of \<open>s\<close> when there is none).\<close>

definition after_last :: "char \<Rightarrow> string \<Rightarrow> string" where
  "after_last c s = rev (takeWhile (\<lambda>x. x \<noteq> c) (rev s))"

text \<open>
  The display name as the specification words it: the prefix marker \<open>ex:\<close> stripped
  if present, otherwise the part after the last \<open>#\<close>, otherwise the part after the last
  \<open>/\<close>, otherwise the URI itself, cut to 30 characters and an ellipsis when longer.
\<close>

definition get_node_name_spec :: "string \<Rightarrow> string" where
  "get_node_name_spec uri =
     (if take (length ''ex:'') uri = ''ex:'' then drop (length ''ex:'') uri
      else if CHR ''#'' \<in> set uri then after_last (CHR ''#'') uri
      else if CHR ''/'' \<in> set uri then after_last (CHR ''/'') uri
      else if length uri > 30 then take 30 uri @ ''...''
      else uri)"

text \<open>A field of a binding is populated when its value is present and not empty.\<close>

definition populated :: "binding \<Rightarrow> string \<Rightarrow> bool" where
  "populated b k =
     (case b k of
        None \<Rightarrow> False
      | Some t \<Rightarrow> (case t ''value'' of None \<Rightarrow> False | Some v \<Rightarrow> v \<noteq> []))"

definition qualifying :: "binding \<Rightarrow> bool" where
  "qualifying b = (populated b ''s'' \<and> populated b ''p'' \<and> populated b ''o'')"

text \<open>The value of a field, empty when absent.\<close>

definition field :: "binding \<Rightarrow> string \<Rightarrow> string" where
  "field b k = (case get_value b k of None \<Rightarrow> [] | Some v \<Rightarrow> v)"

text \<open>The node of a URI and the link of a binding, as the converter writes them.\<close>

definition node_of :: "string \<Rightarrow> node" where
  "node_of u =
     \<lparr>node_id = u, node_name = get_node_name u,
      node_type = get_node_type u, node_group = get_node_group u\<rparr>"

definition link_of :: "binding \<Rightarrow> link" where
  "link_of b =
     \<lparr>link_source = field b ''s'', link_target = field b ''o'',
      link_type = get_edge_type (field b ''p''), link_label = get_edge_label (field b ''p'')\<rparr>"

text \<open>The subjects and objects of the qualifying bindings, in order of appearance.\<close>

definition uris :: "binding list \<Rightarrow> string list" where
  "uris bs = concat (map (\<lambda>b. [field b ''s'', field b ''o'']) (filter qualifying bs))"

text \<open>A binding with the three fields given.\<close>

definition triple :: "string \<Rightarrow> string \<Rightarrow> string \<Rightarrow> binding" where
  "triple s p ob = [''s'' \<mapsto> [''value'' \<mapsto> s], ''p'' \<mapsto> [''value'' \<mapsto> p], ''o'' \<mapsto> [''value'' \<mapsto> ob]]"


text \<open>
  What the two guarded insertions of a round do for one URI: a known URI leaves the
  dictionary as it is, a new one goes to the end with its node.
\<close>

definition with_node :: "string \<Rightarrow> node_dict \<Rightarrow> node_dict" where
  "with_node u d = (if u \<in> set (map fst d) then d else d @ [(u, node_of u)])"

definition add_nodes :: "node_dict \<Rightarrow> string list \<Rightarrow> node_dict" where
  "add_nodes d us = foldl (\<lambda>d u. with_node u d) d us"

text \<open>
  A parsed row read as a binding, and the rows that have the shape of one: a dictionary
  whose terms for \<open>s\<close>, \<open>p\<close> and \<open>o\<close>, where present, are dictionaries whose
  \<open>value\<close>, where present, is a string.
\<close>

definition term_of :: "json \<Rightarrow> rdf_term" where
  "term_of t =
     (case t of
        JObj items \<Rightarrow> (\<lambda>k. case map_of items k of Some (JStr v) \<Rightarrow> Some v | _ \<Rightarrow> None)
      | _ \<Rightarrow> Map.empty)"

definition binding_of :: "json \<Rightarrow> binding" where
  "binding_of row =
     (case row of
        JObj items \<Rightarrow> (\<lambda>k. case map_of items k of Some (JObj t) \<Rightarrow> Some (term_of (JObj t)) | _ \<Rightarrow> None)
      | _ \<Rightarrow> Map.empty)"

fun term_ok :: "json option \<Rightarrow> bool" where
  "term_ok None = True"
| "term_ok (Some (JObj t)) =
     (case map_of t ''value'' of None \<Rightarrow> True | Some (JStr v) \<Rightarrow> True | Some x \<Rightarrow> False)"
| "term_ok (Some x) = False"

fun row_ok :: "json \<Rightarrow> bool" where
  "row_ok (JObj items) =
     (term_ok (map_of items ''s'') \<and> term_ok (map_of items ''p'') \<and> term_ok (map_of items ''o''))"
| "row_ok x = False"

definition json_of_value :: "string option \<Rightarrow> json" where
  "json_of_value v = (case v of None \<Rightarrow> JNull | Some s \<Rightarrow> JStr s)"

text \<open>
  A reply that cannot make the converter raise: an exception, a body that is no JSON, or a
  body whose \<open>results.bindings\<close> is a list of rows of that shape.
\<close>

definition well_formed_body :: "json \<Rightarrow> bool" where
  "well_formed_body data =
     (case bind_err (subscript data ''results'') (\<lambda>results. subscript results ''bindings'') of
        Inr (JArr rows) \<Rightarrow> list_all row_ok rows
      | _ \<Rightarrow> False)"

definition well_formed_reply :: "reply \<Rightarrow> bool" where
  "well_formed_reply r =
     (case r of
        Raises \<Rightarrow> True
      | Hangs \<Rightarrow> False
      | Response status_code None \<Rightarrow> True
      | Response status_code (Some data) \<Rightarrow> well_formed_body data)"

text \<open>A request that is answered, by a response or an exception; a call that raises.\<close>

definition answered :: "reply \<Rightarrow> bool" where
  "answered r = (r \<noteq> Hangs)"

definition raises :: "'a outcome \<Rightarrow> bool" where
  "raises r = (case r of Raised e \<Rightarrow> True | _ \<Rightarrow> False)"

text \<open>The distinct elements of a list, each at the place where it is first seen.\<close>

fun first_seen :: "string list \<Rightarrow> string list" where
  "first_seen [] = []"
| "first_seen (u # us) = u # removeAll u (first_seen us)"

text \<open>The example of the specification, and inputs for the concrete checks below.\<close>

definition example_bindings :: "binding list" where
  "example_bindings = [triple ''ex:resource1'' ''ex:hasType'' ''ex:Product'']"

definition stale_node :: node where
  "stale_node = \<lparr>node_id = ''ex:a'', node_name = ''kept'', node_type = ''kept'', node_group = 7\<rparr>"

text \<open>
  The example as a parsed body, and two servers that answer 404 to every GET and 200 to
  every POST: one with the example row, one with a row that is \<open>null\<close>.
\<close>

definition example_row :: json where
  "example_row =
     JObj [(''s'', JObj [(''type'', JStr ''uri''), (''value'', JStr ''ex:resource1'')]),
           (''p'', JObj [(''type'', JStr ''uri''), (''value'', JStr ''ex:hasType'')]),
           (''o'', JObj [(''type'', JStr ''uri''), (''value'', JStr ''ex:Product'')])]"

definition example_body :: "json list \<Rightarrow> json" where
  "example_body rows =
     JObj [(''status'', JStr ''success''), (''query_type'', JStr ''SELECT''),
           (''execution_time_ms'', JNum 3), (''results'', JObj [(''bindings'', JArr rows)])]"

definition example_server :: server where
  "example_server h =
     (case last h of
        Get url \<Rightarrow> Response 404 None
      | Post url query \<Rightarrow> Response 200 (Some (example_body [example_row])))"

definition null_row_server :: server where
  "null_row_server h =
     (case last h of
        Get url \<Rightarrow> Response 404 None
      | Post url query \<Rightarrow> Response 200 (Some (example_body [JNull])))"

text \<open>A server that answers 404 to every GET and never answers a POST.\<close>

definition hanging_server :: server where
  "hanging_server h =
     (case last h of
        Get url \<Rightarrow> Response 404 None
      | Post url query \<Rightarrow> Hangs)"

section \<open>Facts about the string operations\<close>

lemma startswith_iff: "startswith s pre \<longleftrightarrow> (\<exists>r. s = pre @ r)"
  by (induction s pre rule: startswith.induct) auto

lemma contains_iff: "contains s sub \<longleftrightarrow> (\<exists>ps ss. s = ps @ sub @ ss)"
proof (induction s)
  case Nil
  then show ?case by auto
next
  case (Cons c cs)
  show ?case
  proof
    assume "contains (c # cs) sub"
    then consider "startswith (c # cs) sub" | "contains cs sub" by auto
    then show "\<exists>ps ss. c # cs = ps @ sub @ ss"
    proof cases
      case 1
      then obtain r where "c # cs = sub @ r" by (auto simp: startswith_iff)
      then have "c # cs = [] @ sub @ r" by simp
      then show ?thesis by blast
    next
      case 2
      then obtain ps ss where "cs = ps @ sub @ ss" using Cons.IH by auto
      then have "c # cs = (c # ps) @ sub @ ss" by simp
      then show ?thesis by blast
    qed
  next
    assume "\<exists>ps ss. c # cs = ps @ sub @ ss"
    then obtain ps ss where eq: "c # cs = ps @ sub @ ss" by auto
    show "contains (c # cs) sub"
    proof (cases ps)
      case Nil
      then have "startswith (c # cs) sub" using eq by (auto simp: startswith_iff)
      then show ?thesis by simp
    next
      case (Cons p ps')
      then have "cs = ps' @ sub @ ss" using eq by simp
      then have "contains cs sub" using Cons.IH by auto
      then show ?thesis by simp
    qed
  qed
qed

lemma contains_char: "contains s [c] \<longleftrightarrow> c \<in> set s"
  by (induction s) auto

lemma split_str_nonempty: "split_str s sep \<noteq> []"
  by (induction s) (auto split: list.splits)

lemma length_split_str: "length (split_str s sep) = Suc (length (filter (\<lambda>x. x = sep) s))"
  by (induction s) (auto split: list.splits)

lemma last_split_str: "last (split_str s sep) = after_last sep s"
proof (induction s)
  case Nil
  then show ?case by (simp add: after_last_def)
next
  case (Cons c cs)
  show ?case
  proof (cases "sep \<in> set cs")
    case True
    then have "after_last sep (c # cs) = after_last sep cs"
      by (simp add: after_last_def takeWhile_append1)
    moreover have "last (split_str (c # cs) sep) = last (split_str cs sep)"
    proof -
      have "filter (\<lambda>x. x = sep) cs \<noteq> []"
        using True by (auto simp: filter_empty_conv)
      then have "2 \<le> length (split_str cs sep)"
        by (cases "filter (\<lambda>x. x = sep) cs") (auto simp: length_split_str)
      then obtain w v ws where "split_str cs sep = w # v # ws"
        by (cases "split_str cs sep"; cases "tl (split_str cs sep)") auto
      then show ?thesis by simp
    qed
    ultimately show ?thesis using Cons.IH by simp
  next
    case False
    then have "takeWhile (\<lambda>x. x \<noteq> sep) (rev cs @ [c]) = rev cs @ takeWhile (\<lambda>x. x \<noteq> sep) [c]"
      by (intro takeWhile_append2) auto
    then have al: "after_last sep (c # cs) = (if c = sep then cs else c # cs)"
      by (simp add: after_last_def)
    have one: "split_str cs sep = [cs]"
      using False by (induction cs) auto
    show ?thesis
      using al one by simp
  qed
qed

lemma after_last_spec:
  assumes "c \<in> set s"
  shows "\<exists>pre. s = pre @ c # after_last c s" and "c \<notin> set (after_last c s)"
proof -
  let ?t = "takeWhile (\<lambda>x. x \<noteq> c) (rev s)"
  let ?d = "dropWhile (\<lambda>x. x \<noteq> c) (rev s)"
  have "c \<in> set (rev s)" using assms by simp
  then have "?d \<noteq> []" by (simp add: dropWhile_eq_Nil_conv)
  moreover have "?d \<noteq> [] \<Longrightarrow> hd ?d = c" using hd_dropWhile [of "\<lambda>x. x \<noteq> c" "rev s"] by simp
  ultimately obtain r where d: "?d = c # r" by (cases ?d) auto
  have "rev s = ?t @ ?d" by simp
  then have "rev s = ?t @ c # r" using d by simp
  then have "s = rev (?t @ c # r)" by (metis rev_rev_ident)
  then have "s = rev r @ c # after_last c s" by (simp add: after_last_def)
  then show "\<exists>pre. s = pre @ c # after_last c s" by blast
  show "c \<notin> set (after_last c s)"
    using set_takeWhileD [of c "\<lambda>x. x \<noteq> c" "rev s"] by (auto simp: after_last_def)
qed

lemma startswith_append_short:
  assumes "startswith (a @ b) old" and "length old \<le> length a"
  shows "startswith a old"
proof -
  from assms(1) obtain r where "a @ b = old @ r" by (auto simp: startswith_iff)
  then have "take (length old) (a @ b) = old" by simp
  then have "take (length old) a = old" using assms(2) by simp
  then have "a = old @ drop (length old) a" by (metis append_take_drop_id)
  then show ?thesis unfolding startswith_iff by blast
qed

lemma startswith_self_append: "startswith (old @ rest) old"
  by (simp add: startswith_iff)

lemma replace_absent: "old \<noteq> [] \<Longrightarrow> \<not> contains s old \<Longrightarrow> replace s old new = s"
  by (induction s) auto

lemma replace_first:
  assumes "old \<noteq> []" and "\<not> contains (pre @ butlast old) old"
  shows "replace (pre @ old @ rest) old new = pre @ new @ replace rest old new"
  using assms(2)
proof (induction pre)
  case Nil
  obtain c cs where old: "old = c # cs" using assms(1) by (cases old) auto
  have "replace ((c # cs) @ rest) (c # cs) new = new @ replace rest (c # cs) new"
    using startswith_self_append [of "c # cs" rest] by simp
  then show ?case by (simp add: old)
next
  case (Cons p pre)
  have no: "\<not> startswith ((p # pre) @ butlast old) old" and later: "\<not> contains (pre @ butlast old) old"
    using Cons.prems by auto
  have "\<not> startswith ((p # pre) @ old @ rest) old"
  proof
    assume "startswith ((p # pre) @ old @ rest) old"
    moreover have "old @ rest = butlast old @ last old # rest"
      using assms(1) append_butlast_last_id [of old] by (metis append.assoc append_Cons append_Nil)
    ultimately have "startswith (((p # pre) @ butlast old) @ (last old # rest)) old"
      by simp
    moreover have "length old \<le> length ((p # pre) @ butlast old)" by simp
    ultimately have "startswith ((p # pre) @ butlast old) old"
      by (rule startswith_append_short)
    then show False using no by simp
  qed
  then have "replace ((p # pre) @ old @ rest) old new = p # replace (pre @ old @ rest) old new"
    using assms(1) by simp
  then show ?case using Cons.IH [OF later] by simp
qed

section \<open>The classification helpers: what they return\<close>

lemma lower_length: "length (lower s) = length s"
  by (simp add: lower_def)

text \<open>
  C6. For every predicate, \<open>get_edge_type\<close> returns \<open>type\<close> if the lowercased
  predicate contains the substring \<open>type\<close>, otherwise \<open>has\<close> if it contains the
  substring \<open>has\<close>, otherwise \<open>relationship\<close>.
\<close>

theorem get_edge_type_spec:
  "get_edge_type predicate =
     (if (\<exists>ps ss. lower predicate = ps @ ''type'' @ ss) then ''type''
      else if (\<exists>ps ss. lower predicate = ps @ ''has'' @ ss) then ''has''
      else ''relationship'')"
  unfolding get_edge_type_def Let_def contains_iff ..

theorem get_edge_type_spec_witness:
  "get_edge_type ''http://example.org/epcis#rdfType'' = ''type'' \<and>
   get_edge_type ''ex:HASPART'' = ''has'' \<and>
   get_edge_type ''ex:partOf'' = ''relationship''"
  using get_edge_type_spec [of "''http://example.org/epcis#rdfType''"]
    get_edge_type_spec [of "''ex:HASPART''"] get_edge_type_spec [of "''ex:partOf''"]
  unfolding contains_iff [symmetric]
  by (simp add: lower_def lower_char_def char_of_def bit_Suc_0_iff)

text \<open>
  C7. For every predicate, \<open>get_edge_label\<close> returns the substring after the last
  \<open>#\<close> if the predicate contains \<open>#\<close>; otherwise the predicate itself, cut to its
  first 20 characters and followed by three dots when it is longer than 20.
\<close>

theorem get_edge_label_spec:
  "get_edge_label predicate =
     (if CHR ''#'' \<in> set predicate then after_last (CHR ''#'') predicate
      else if length predicate > 20 then take 20 predicate @ ''...''
      else predicate)"
  by (simp add: get_edge_label_def contains_char last_split_str)

theorem get_edge_label_spec_witness:
  "get_edge_label ''http://a#b#hasPart'' = ''hasPart'' \<and>
   get_edge_label ''ex:hasType'' = ''ex:hasType'' \<and>
   get_edge_label ''urn:epcglobal:cbv:bizstep:shipping'' = ''urn:epcglobal:cbv:bi...''"
  using get_edge_label_spec [of "''http://a#b#hasPart''"]
    get_edge_label_spec [of "''ex:hasType''"]
    get_edge_label_spec [of "''urn:epcglobal:cbv:bizstep:shipping''"]
  by (simp add: after_last_def)

text \<open>
  C5. For every URI, \<open>get_node_type\<close> tests the lowercased URI for the substrings
  \<open>product\<close>, \<open>location\<close>, \<open>event\<close>, \<open>business\<close> in this order and returns
  the first that occurs, \<open>resource\<close> when none does; \<open>get_node_group\<close> is 1, 2, 3, 4
  for these four categories and 0 for \<open>resource\<close>.
\<close>

theorem get_node_type_group_spec:
  "get_node_type uri =
     (if (\<exists>ps ss. lower uri = ps @ ''product'' @ ss) then ''product''
      else if (\<exists>ps ss. lower uri = ps @ ''location'' @ ss) then ''location''
      else if (\<exists>ps ss. lower uri = ps @ ''event'' @ ss) then ''event''
      else if (\<exists>ps ss. lower uri = ps @ ''business'' @ ss) then ''business''
      else ''resource'') \<and>
   get_node_group uri =
     (if get_node_type uri = ''product'' then 1
      else if get_node_type uri = ''location'' then 2
      else if get_node_type uri = ''event'' then 3
      else if get_node_type uri = ''business'' then 4
      else 0) \<and>
   (get_node_group uri = 0) = (get_node_type uri = ''resource'')"
proof -
  have t: "get_node_type uri =
     (if (\<exists>ps ss. lower uri = ps @ ''product'' @ ss) then ''product''
      else if (\<exists>ps ss. lower uri = ps @ ''location'' @ ss) then ''location''
      else if (\<exists>ps ss. lower uri = ps @ ''event'' @ ss) then ''event''
      else if (\<exists>ps ss. lower uri = ps @ ''business'' @ ss) then ''business''
      else ''resource'')"
    unfolding get_node_type_def Let_def contains_iff ..
  have cases: "get_node_type uri = ''product'' \<or> get_node_type uri = ''location'' \<or>
      get_node_type uri = ''event'' \<or> get_node_type uri = ''business'' \<or>
      get_node_type uri = ''resource''"
    by (simp add: get_node_type_def Let_def)
  have g: "get_node_group uri =
     (if get_node_type uri = ''product'' then 1
      else if get_node_type uri = ''location'' then 2
      else if get_node_type uri = ''event'' then 3
      else if get_node_type uri = ''business'' then 4
      else 0)"
    by (simp add: get_node_group_def groups_def Let_def)
  have z: "(get_node_group uri = 0) = (get_node_type uri = ''resource'')"
    using cases by (auto simp: g)
  show ?thesis using t g z by blast
qed

theorem get_node_type_group_spec_witness:
  "get_node_type ''http://example.org/epcis#EventType'' = ''event'' \<and>
   get_node_group ''http://example.org/epcis#EventType'' = 3 \<and>
   get_node_type ''urn:Location/of/PRODUCT'' = ''product'' \<and>
   get_node_group ''urn:Location/of/PRODUCT'' = 1 \<and>
   get_node_type ''ex:resource1'' = ''resource'' \<and>
   get_node_group ''ex:resource1'' = 0"
  using get_node_type_group_spec [of "''http://example.org/epcis#EventType''"]
    get_node_type_group_spec [of "''urn:Location/of/PRODUCT''"]
    get_node_type_group_spec [of "''ex:resource1''"]
  unfolding contains_iff [symmetric]
  by (simp add: lower_def lower_char_def char_of_def bit_Suc_0_iff)

text \<open>
  C4, as the specification states it, fails: for a URI that starts with \<open>ex:\<close> the
  program does more than strip the marker. It removes every occurrence of \<open>ex:\<close> and
  then turns every \<open>resource\<close> into \<open>Resource\<close> followed by a space, so
  \<open>ex:resource1\<close> is displayed as \<open>Resource 1\<close>, not as \<open>resource1\<close>.
\<close>

theorem get_node_name_counterexample:
  "get_node_name ''ex:resource1'' = ''Resource 1'' \<and>
   get_node_name_spec ''ex:resource1'' = ''resource1'' \<and>
   get_node_name ''ex:resource1'' \<noteq> get_node_name_spec ''ex:resource1''"
  by (simp add: get_node_name_def get_node_name_spec_def)

text \<open>
  C4, amended. For every URI, \<open>get_node_name\<close> returns: if the URI starts with
  \<open>ex:\<close>, the URI with every occurrence of \<open>ex:\<close> removed and then every occurrence
  of \<open>resource\<close> replaced by \<open>Resource\<close> and a space; otherwise the part after the
  last \<open>#\<close> if it contains \<open>#\<close>; otherwise the part after the last \<open>/\<close> if it
  contains \<open>/\<close>; otherwise the URI itself, cut to its first 30 characters and followed
  by three dots when it is longer than 30.
\<close>

theorem get_node_name_amended:
  "get_node_name uri =
     (if (\<exists>r. uri = ''ex:'' @ r)
      then replace (replace uri ''ex:'' []) ''resource'' ''Resource ''
      else if CHR ''#'' \<in> set uri then after_last (CHR ''#'') uri
      else if CHR ''/'' \<in> set uri then after_last (CHR ''/'') uri
      else if length uri > 30 then take 30 uri @ ''...''
      else uri)"
  unfolding get_node_name_def contains_char last_split_str startswith_iff ..

theorem get_node_name_amended_witness:
  "get_node_name ''ex:resource1'' = ''Resource 1'' \<and>
   get_node_name ''ex:Product'' = ''Product'' \<and>
   get_node_name ''http://example.org/epcis#EventType'' = ''EventType'' \<and>
   get_node_name ''http://example.org/loc/dock7'' = ''dock7'' \<and>
   get_node_name ''urn:epc:id:sgtin:0614141.107346.2017'' = ''urn:epc:id:sgtin:0614141.10734...''"
  using get_node_name_amended [of "''ex:resource1''"]
    get_node_name_amended [of "''ex:Product''"]
    get_node_name_amended [of "''http://example.org/epcis#EventType''"]
    get_node_name_amended [of "''http://example.org/loc/dock7''"]
    get_node_name_amended [of "''urn:epc:id:sgtin:0614141.107346.2017''"]
  unfolding startswith_iff [symmetric]
  by (simp add: after_last_def)

section \<open>The converter: what the loop computes\<close>

lemma dict_set_new: "k \<notin> set (map fst d) \<Longrightarrow> dict_set d k v = d @ [(k, v)]"
  by (induction d) auto

lemma populated_iff: "populated b k \<longleftrightarrow> (\<exists>v. get_value b k = Some v \<and> v \<noteq> [])"
  by (auto simp: populated_def get_value_def split: option.splits)

lemma loop_body_qualifying:
  assumes "qualifying b"
  shows "loop_body (nd, ls) b =
    (with_node (field b ''o'') (with_node (field b ''s'') nd), ls @ [link_of b])"
proof -
  from assms obtain s p ob where
    v: "get_value b ''s'' = Some s" "get_value b ''p'' = Some p" "get_value b ''o'' = Some ob"
    and ne: "s \<noteq> []" "p \<noteq> []" "ob \<noteq> []"
    by (auto simp: qualifying_def populated_iff)
  have f: "field b ''s'' = s" "field b ''p'' = p" "field b ''o'' = ob"
    using v by (simp_all add: field_def)
  show ?thesis
    using v ne
    by (simp add: loop_body_def f link_of_def with_node_def dict_in_def dict_set_new
        node_of_def Let_def)
qed

lemma loop_body_other:
  assumes "\<not> qualifying b"
  shows "loop_body st b = st"
  using assms
  by (cases st) (auto simp: loop_body_def qualifying_def populated_iff Let_def split: option.splits)

lemma foldl_loop_body:
  "foldl loop_body (nd, ls) bs =
     (add_nodes nd (uris bs), ls @ map link_of (filter qualifying bs))"
proof (induction bs arbitrary: nd ls)
  case Nil
  show ?case by (simp add: uris_def add_nodes_def)
next
  case (Cons b bs)
  show ?case
  proof (cases "qualifying b")
    case True
    then show ?thesis
      using Cons.IH by (simp add: loop_body_qualifying uris_def add_nodes_def)
  next
    case False
    then show ?thesis
      using Cons.IH by (simp add: loop_body_other uris_def)
  qed
qed

lemma keys_add_nodes: "set (map fst (add_nodes d us)) = set (map fst d) \<union> set us"
  unfolding add_nodes_def
  by (induction us arbitrary: d) (auto simp: with_node_def)



lemma values_with_node:
  "\<forall>e \<in> set d. snd e = node_of (fst e) \<Longrightarrow> \<forall>e \<in> set (with_node u d). snd e = node_of (fst e)"
  by (auto simp: with_node_def)

lemma values_add_nodes:
  "\<forall>e \<in> set d. snd e = node_of (fst e) \<Longrightarrow> \<forall>e \<in> set (add_nodes d us). snd e = node_of (fst e)"
  unfolding add_nodes_def
proof (induction us arbitrary: d)
  case Nil
  then show ?case by simp
next
  case (Cons u us)
  have "\<forall>e \<in> set (with_node u d). snd e = node_of (fst e)"
    using Cons.prems by (rule values_with_node)
  then show ?case using Cons.IH by simp
qed

lemma ids_add_nodes: "map node_id (map snd (add_nodes [] us)) = map fst (add_nodes [] us)"
proof -
  have "\<forall>e \<in> set (add_nodes [] us). snd e = node_of (fst e)"
    by (rule values_add_nodes) simp
  then have "\<forall>e \<in> set (add_nodes [] us). node_id (snd e) = fst e"
    by (simp add: node_of_def)
  then show ?thesis by simp
qed

lemma nodes_convert: "nodes (convert_sparql_to_graph bs) = map snd (add_nodes [] (uris bs))"
  by (simp add: convert_sparql_to_graph_def foldl_loop_body)

lemma node_ids_convert:
  "map node_id (nodes (convert_sparql_to_graph bs)) = map fst (add_nodes [] (uris bs))"
  unfolding nodes_convert by (rule ids_add_nodes)

lemma links_convert: "links (convert_sparql_to_graph bs) = map link_of (filter qualifying bs)"
  by (simp add: convert_sparql_to_graph_def foldl_loop_body)


lemma uris_iff:
  "u \<in> set (uris bs) \<longleftrightarrow> (\<exists>b \<in> set bs. qualifying b \<and> (u = field b ''s'' \<or> u = field b ''o''))"
  by (auto simp: uris_def)

lemma set_first_seen: "set (first_seen us) = set us"
  by (induction us) auto

lemma distinct_first_seen: "distinct (first_seen us)"
  by (induction us) (auto simp: distinct_removeAll)

lemma keys_order_add_nodes:
  "map fst (add_nodes d us) = map fst d @ filter (\<lambda>u. u \<notin> set (map fst d)) (first_seen us)"
proof (induction us arbitrary: d)
  case Nil
  show ?case by (simp add: add_nodes_def)
next
  case (Cons u us)
  have step: "add_nodes d (u # us) = add_nodes (with_node u d) us"
    by (simp add: add_nodes_def)
  show ?case
  proof (cases "u \<in> set (map fst d)")
    case True
    then have "with_node u d = d" by (simp add: with_node_def)
    moreover have "filter (\<lambda>x. x \<notin> set (map fst d)) (removeAll u (first_seen us))
        = filter (\<lambda>x. x \<notin> set (map fst d)) (first_seen us)"
      using True by (auto simp: removeAll_filter_not_eq intro: filter_cong)
    ultimately show ?thesis using True Cons.IH [of d] step by simp
  next
    case False
    then have w: "with_node u d = d @ [(u, node_of u)]" by (simp add: with_node_def)
    have "filter (\<lambda>x. x \<notin> set (map fst (d @ [(u, node_of u)]))) (first_seen us)
        = filter (\<lambda>x. x \<notin> set (map fst d)) (removeAll u (first_seen us))"
      by (auto simp: removeAll_filter_not_eq intro: filter_cong)
    then show ?thesis using False Cons.IH [of "d @ [(u, node_of u)]"] step w by simp
  qed
qed

lemma nodes_add_nodes: "map snd (add_nodes [] us) = map node_of (map fst (add_nodes [] us))"
proof -
  have "\<forall>e \<in> set (add_nodes [] us). snd e = node_of (fst e)"
    by (rule values_add_nodes) simp
  then show ?thesis by simp
qed

lemma convert_sparql_to_graph_eq:
  "convert_sparql_to_graph bs =
     \<lparr>nodes = map node_of (first_seen (uris bs)), links = map link_of (filter qualifying bs)\<rparr>"
proof -
  have "map fst (add_nodes [] (uris bs)) = first_seen (uris bs)"
    using keys_order_add_nodes [of "[]" "uris bs"] by simp
  then have "nodes (convert_sparql_to_graph bs) = map node_of (first_seen (uris bs))"
    using nodes_add_nodes [of "uris bs"] by (simp only: nodes_convert)
  then show ?thesis
    using links_convert [of bs] by (cases "convert_sparql_to_graph bs") simp
qed

lemma qualifying_triple: "qualifying (triple s p ob) = (s \<noteq> [] \<and> p \<noteq> [] \<and> ob \<noteq> [])"
  by (simp add: qualifying_def populated_def triple_def)

lemma field_triple:
  "field (triple s p ob) ''s'' = s" "field (triple s p ob) ''p'' = p" "field (triple s p ob) ''o'' = ob"
  by (simp_all add: field_def get_value_def triple_def)

lemma example_graph:
  "convert_sparql_to_graph example_bindings =
    \<lparr>nodes = [\<lparr>node_id = ''ex:resource1'', node_name = ''Resource 1'', node_type = ''resource'', node_group = 0\<rparr>,
              \<lparr>node_id = ''ex:Product'', node_name = ''Product'', node_type = ''product'', node_group = 1\<rparr>],
     links = [\<lparr>link_source = ''ex:resource1'', link_target = ''ex:Product'',
       link_type = ''type'', link_label = ''ex:hasType''\<rparr>]\<rparr>"
  by (simp add: convert_sparql_to_graph_def example_bindings_def triple_def loop_body_def
      get_value_def dict_in_def get_node_name_def get_node_type_def get_node_group_def groups_def
      get_edge_type_def get_edge_label_def lower_def lower_char_def char_of_def bit_Suc_0_iff)

section \<open>The converter on parsed JSON and on bindings\<close>

lemma value_of_term:
  assumes "term_ok (map_of items k)"
  shows "bind_err (py_get (JObj items) k (JObj [])) (\<lambda>t. py_get t ''value'' JNull)
         = Inr (json_of_value (get_value (binding_of (JObj items)) k))"
proof (cases "map_of items k")
  case None
  then show ?thesis
    by (simp add: bind_err_def get_value_def binding_of_def json_of_value_def)
next
  case (Some t)
  then obtain ti where t: "t = JObj ti" using assms by (cases t) auto
  show ?thesis
  proof (cases "map_of ti ''value''")
    case None
    then show ?thesis using Some t
      by (simp add: bind_err_def get_value_def binding_of_def term_of_def json_of_value_def)
  next
    case (Some v)
    then obtain s where "v = JStr s" using assms \<open>map_of items k = Some t\<close> t by (cases v) auto
    then show ?thesis using Some \<open>map_of items k = Some t\<close> t
      by (simp add: bind_err_def get_value_def binding_of_def term_of_def json_of_value_def)
  qed
qed

lemma bind_err_Inr: "bind_err (Inr v) f = f v"
  by (simp add: bind_err_def)

lemma bind_err_assoc_value:
  "bind_err (py_get b k d) (\<lambda>t. bind_err (py_get t k' d') f)
    = bind_err (bind_err (py_get b k d) (\<lambda>t. py_get t k' d')) f"
  by (simp add: bind_err_def split: sum.splits)

lemma loop_body_json_typed:
  assumes "row_ok row"
  shows "loop_body_json st row = Inr (loop_body st (binding_of row))"
proof -
  obtain items where row: "row = JObj items" using assms by (cases row) auto
  obtain nd ls where st: "st = (nd, ls)" by (cases st)
  have ok: "term_ok (map_of items ''s'')" "term_ok (map_of items ''p'')" "term_ok (map_of items ''o'')"
    using assms row by auto
  note v = value_of_term [OF ok(1)] value_of_term [OF ok(2)] value_of_term [OF ok(3)]
  have "loop_body_json st row =
      bind_err (bind_err (py_get row ''s'' (JObj [])) (\<lambda>t. py_get t ''value'' JNull)) (\<lambda>subject.
      bind_err (bind_err (py_get row ''p'' (JObj [])) (\<lambda>t. py_get t ''value'' JNull)) (\<lambda>predicate.
      bind_err (bind_err (py_get row ''o'' (JObj [])) (\<lambda>t. py_get t ''value'' JNull)) (\<lambda>object.
        if truthy subject \<and> truthy predicate \<and> truthy object then
          bind_err (as_uri subject) (\<lambda>s.
            let nd1 = (if \<not> dict_in s nd
                       then dict_set nd s
                              \<lparr>node_id = s, node_name = get_node_name s,
                               node_type = get_node_type s, node_group = get_node_group s\<rparr>
                       else nd)
            in bind_err (as_uri object) (\<lambda>ob.
            let nd2 = (if \<not> dict_in ob nd1
                       then dict_set nd1 ob
                              \<lparr>node_id = ob, node_name = get_node_name ob,
                               node_type = get_node_type ob, node_group = get_node_group ob\<rparr>
                       else nd1)
            in bind_err (as_predicate predicate) (\<lambda>p.
               Inr (nd2, ls @ [\<lparr>link_source = s, link_target = ob,
                                 link_type = get_edge_type p, link_label = get_edge_label p\<rparr>]))))
        else Inr st)))"
    unfolding loop_body_json_def st by (simp add: bind_err_assoc_value)
  also have "\<dots> = Inr (loop_body st (binding_of row))"
    unfolding row v bind_err_Inr
    by (cases "get_value (binding_of (JObj items)) ''s''";
        cases "get_value (binding_of (JObj items)) ''p''";
        cases "get_value (binding_of (JObj items)) ''o''")
       (simp_all add: json_of_value_def loop_body_def st bind_err_def Let_def)
  finally show ?thesis .
qed

lemma run_loop_typed:
  "list_all row_ok rows \<Longrightarrow> run_loop st rows = Inr (foldl loop_body st (map binding_of rows))"
  by (induction rows arbitrary: st) (simp_all add: loop_body_json_typed bind_err_def)

lemma convert_json_typed:
  assumes "list_all row_ok rows"
  shows "convert_sparql_to_graph_json (JArr rows) = Inr (convert_sparql_to_graph (map binding_of rows))"
  using run_loop_typed [OF assms, of "([], [])"]
  by (simp add: convert_sparql_to_graph_json_def convert_sparql_to_graph_def bind_err_def
      split: prod.splits)

lemma convert_json_null_row: "convert_sparql_to_graph_json (JArr [JNull]) = Inl AttributeError"
  by (simp add: convert_sparql_to_graph_json_def loop_body_json_def bind_err_def)

lemma convert_json_number_subject:
  "convert_sparql_to_graph_json
     (JArr [JObj [(''s'', JObj [(''value'', JNum 5)]), (''p'', JObj [(''value'', JStr ''p'')]),
                  (''o'', JObj [(''value'', JStr ''o'')])]]) = Inl AttributeError"
  by (simp add: convert_sparql_to_graph_json_def loop_body_json_def bind_err_def)

lemma convert_json_number_subject_skipped:
  "convert_sparql_to_graph_json
     (JArr [JObj [(''s'', JObj [(''value'', JNum 5)]), (''p'', JObj [(''value'', JStr ''p'')]),
                  (''o'', JObj [(''value'', JNull)])]]) = Inr \<lparr>nodes = [], links = []\<rparr>"
  by (simp add: convert_sparql_to_graph_json_def loop_body_json_def bind_err_def)

lemma example_json_graph:
  "convert_sparql_to_graph_json (JArr [example_row]) = Inr (convert_sparql_to_graph example_bindings)"
  unfolding example_graph
  by (simp add: convert_sparql_to_graph_json_def loop_body_json_def bind_err_def example_row_def
      dict_in_def get_node_name_def get_node_type_def get_node_group_def groups_def
      get_edge_type_def get_edge_label_def lower_def lower_char_def char_of_def bit_Suc_0_iff)

section \<open>The converter: the claims\<close>

text \<open>
  C1, as the specification states it, fails: the link of the example does not have the
  category \<open>has\<close>. The lowercased predicate \<open>ex:hastype\<close> contains \<open>type\<close>, which
  \<open>get_edge_type\<close> tests before \<open>has\<close>, so the category is \<open>type\<close>.
\<close>

theorem example_counterexample:
  "length (links (convert_sparql_to_graph example_bindings)) = 1 \<and>
   map link_type (links (convert_sparql_to_graph example_bindings)) = [''type''] \<and>
   map link_type (links (convert_sparql_to_graph example_bindings)) \<noteq> [''has'']"
  by (simp add: example_bindings_def links_convert qualifying_triple link_of_def field_triple
      get_edge_type_def lower_def lower_char_def char_of_def bit_Suc_0_iff)

text \<open>
  C1, amended. For the bindings of the example, with subject \<open>ex:resource1\<close>, predicate
  \<open>ex:hasType\<close> and object \<open>ex:Product\<close>, the converter builds a dictionary of nodes
  keyed exactly by \<open>ex:resource1\<close> and \<open>ex:Product\<close>, returns the nodes with these
  two ids, and returns exactly one link, whose category is \<open>type\<close> and whose label is
  the whole string \<open>ex:hasType\<close>.
\<close>

theorem example_amended:
  "map fst (fst (foldl loop_body ([], []) example_bindings)) = [''ex:resource1'', ''ex:Product''] \<and>
   map node_id (nodes (convert_sparql_to_graph example_bindings)) = [''ex:resource1'', ''ex:Product''] \<and>
   links (convert_sparql_to_graph example_bindings) =
     [\<lparr>link_source = ''ex:resource1'', link_target = ''ex:Product'',
       link_type = ''type'', link_label = ''ex:hasType''\<rparr>]"
proof -
  have q: "filter qualifying example_bindings = example_bindings"
    by (simp add: example_bindings_def qualifying_triple)
  have u: "uris example_bindings = [''ex:resource1'', ''ex:Product'']"
    by (simp add: uris_def q) (simp add: example_bindings_def field_triple)
  have k: "map fst (add_nodes [] [''ex:resource1'', ''ex:Product'']) = [''ex:resource1'', ''ex:Product'']"
    by (simp add: add_nodes_def with_node_def)
  have l: "map link_of example_bindings =
     [\<lparr>link_source = ''ex:resource1'', link_target = ''ex:Product'',
       link_type = ''type'', link_label = ''ex:hasType''\<rparr>]"
    by (simp add: example_bindings_def link_of_def field_triple get_edge_type_def
        get_edge_label_def lower_def lower_char_def char_of_def bit_Suc_0_iff)
  show ?thesis
    by (simp add: foldl_loop_body node_ids_convert links_convert q u k l)
qed

theorem example_amended_witness:
  "map link_type (links (convert_sparql_to_graph example_bindings)) = [''type''] \<and>
   map link_label (links (convert_sparql_to_graph example_bindings)) = [''ex:hasType'']"
  using example_amended by simp

text \<open>
  C2. For every list of bindings, the links of the result are the links of the qualifying
  bindings (all of \<open>s\<close>, \<open>p\<close>, \<open>o\<close> present with a non-empty value), one for
  each, in order, whether or not its nodes were already there and whether or not the same
  binding occurred before; so the number of links is the number of qualifying bindings.
\<close>

theorem link_count:
  "links (convert_sparql_to_graph bs) = map link_of (filter qualifying bs) \<and>
   length (links (convert_sparql_to_graph bs)) = length (filter qualifying bs)"
  by (simp add: links_convert)

theorem link_count_witness:
  "length (links (convert_sparql_to_graph
      [triple ''ex:a'' ''ex:p'' ''ex:b'', triple ''ex:a'' ''ex:p'' ''ex:b'',
       triple ''ex:a'' [] ''ex:b'', [''s'' \<mapsto> [''value'' \<mapsto> ''ex:a''], ''p'' \<mapsto> [''value'' \<mapsto> ''ex:p'']],
       triple ''ex:b'' ''ex:q'' ''ex:a''])) = 3"
  using link_count [of "[triple ''ex:a'' ''ex:p'' ''ex:b'', triple ''ex:a'' ''ex:p'' ''ex:b'',
       triple ''ex:a'' [] ''ex:b'', [''s'' \<mapsto> [''value'' \<mapsto> ''ex:a''], ''p'' \<mapsto> [''value'' \<mapsto> ''ex:p'']],
       triple ''ex:b'' ''ex:q'' ''ex:a'']"]
  by (simp add: qualifying_def populated_def triple_def)



text \<open>
  C8. For every list of bindings, the result is the result for its qualifying bindings
  alone; a round of the loop on a binding that lacks a subject, predicate or object
  value, or has an empty one, leaves both the dictionary of nodes and the list of links
  as they were.
\<close>

theorem unqualified_dropped:
  "convert_sparql_to_graph bs = convert_sparql_to_graph (filter qualifying bs) \<and>
   (\<forall>st b. \<not> qualifying b \<longrightarrow> loop_body st b = st)"
proof -
  have "uris (filter qualifying bs) = uris bs" by (simp add: uris_def)
  then have "convert_sparql_to_graph bs = convert_sparql_to_graph (filter qualifying bs)"
    by (simp add: convert_sparql_to_graph_def foldl_loop_body)
  then show ?thesis by (simp add: loop_body_other)
qed

theorem unqualified_dropped_witness:
  "convert_sparql_to_graph
      [triple ''ex:a'' ''ex:p'' ''ex:b'',
       [''s'' \<mapsto> [''value'' \<mapsto> ''ex:c''], ''p'' \<mapsto> [''value'' \<mapsto> ''ex:p'']],
       triple ''ex:d'' ''ex:p'' [],
       triple ''ex:b'' ''ex:q'' ''ex:a'']
    = convert_sparql_to_graph [triple ''ex:a'' ''ex:p'' ''ex:b'', triple ''ex:b'' ''ex:q'' ''ex:a''] \<and>
   loop_body ([(''ex:a'', stale_node)], [])
       [''s'' \<mapsto> [''value'' \<mapsto> ''ex:c''], ''p'' \<mapsto> [''value'' \<mapsto> ''ex:p'']]
    = ([(''ex:a'', stale_node)], [])"
proof -
  let ?bad = "[''s'' \<mapsto> [''value'' \<mapsto> ''ex:c''], ''p'' \<mapsto> [''value'' \<mapsto> ''ex:p'']] :: binding"
  let ?bs = "[triple ''ex:a'' ''ex:p'' ''ex:b'', ?bad, triple ''ex:d'' ''ex:p'' [],
       triple ''ex:b'' ''ex:q'' ''ex:a'']"
  have nq: "\<not> qualifying ?bad" by (simp add: qualifying_def populated_def)
  have f: "filter qualifying ?bs = [triple ''ex:a'' ''ex:p'' ''ex:b'', triple ''ex:b'' ''ex:q'' ''ex:a'']"
    using nq by (simp add: qualifying_triple)
  note t = unqualified_dropped [of ?bs]
  from t have 1: "convert_sparql_to_graph ?bs = convert_sparql_to_graph (filter qualifying ?bs)"
    by blast
  from t nq have 2: "loop_body ([(''ex:a'', stale_node)], []) ?bad = ([(''ex:a'', stale_node)], [])"
    by blast
  show ?thesis using 1 2 unfolding f by simp
qed

text \<open>
  C10. For every list of bindings, the source and the target of every link of the result
  are ids of nodes of the result.
\<close>

theorem no_dangling_links:
  "\<forall>l \<in> set (links (convert_sparql_to_graph bs)).
     link_source l \<in> set (map node_id (nodes (convert_sparql_to_graph bs))) \<and>
     link_target l \<in> set (map node_id (nodes (convert_sparql_to_graph bs)))"
proof
  fix l
  assume "l \<in> set (links (convert_sparql_to_graph bs))"
  then obtain b where b: "b \<in> set bs" "qualifying b" "l = link_of b"
    by (auto simp: links_convert)
  have ids: "set (map node_id (nodes (convert_sparql_to_graph bs))) = set (uris bs)"
    using keys_add_nodes [of "[]" "uris bs"] by (simp add: node_ids_convert)
  have "field b ''s'' \<in> set (uris bs)" "field b ''o'' \<in> set (uris bs)"
    using b by (auto simp: uris_iff)
  then show "link_source l \<in> set (map node_id (nodes (convert_sparql_to_graph bs))) \<and>
     link_target l \<in> set (map node_id (nodes (convert_sparql_to_graph bs)))"
    using ids b by (simp add: link_of_def)
qed

theorem no_dangling_links_witness:
  "link_source (link_of (triple ''ex:resource1'' ''ex:hasType'' ''ex:Product''))
     \<in> set (map node_id (nodes (convert_sparql_to_graph example_bindings))) \<and>
   link_target (link_of (triple ''ex:resource1'' ''ex:hasType'' ''ex:Product''))
     \<in> set (map node_id (nodes (convert_sparql_to_graph example_bindings)))"
proof -
  have "link_of (triple ''ex:resource1'' ''ex:hasType'' ''ex:Product'')
      \<in> set (links (convert_sparql_to_graph example_bindings))"
    by (simp add: links_convert example_bindings_def qualifying_triple)
  then show ?thesis using no_dangling_links [of example_bindings] by blast
qed

section \<open>The checks against the server: the claim\<close>

lemma test_static_files_failed:
  assumes "console_ok" and "answered (srv (log @ [Get static_url]))"
    and "\<forall>body. srv (log @ [Get static_url]) \<noteq> Response 200 body"
  shows "test_static_files console_ok srv log = (Returns False, log @ [Get static_url])"
  using assms
  by (auto simp: test_static_files_def send_def answered_def split: reply.splits)

lemma test_sparql_api_answered:
  assumes "console_ok" and "answered (srv (log @ [Post sparql_url sparql_query]))"
  shows "\<exists>sparql_ok. test_sparql_api console_ok srv log
           = (Returns sparql_ok, log @ [Post sparql_url sparql_query])"
  using assms
  by (auto simp: test_sparql_api_def send_def answered_def split: reply.splits option.splits sum.splits)

lemma test_sparql_api_Some:
  assumes "test_sparql_api console_ok srv log = (Returns (Some data), log')"
  shows "\<exists>status_code. srv (log @ [Post sparql_url sparql_query]) = Response status_code (Some data)"
  using assms
  by (auto simp: test_sparql_api_def send_def split: reply.splits option.splits sum.splits if_splits)

lemma well_formed_body_rows:
  assumes "well_formed_body data"
  shows "\<exists>rows results. subscript data ''results'' = Inr results \<and>
      subscript results ''bindings'' = Inr (JArr rows) \<and> list_all row_ok rows"
  using assms
  by (auto simp: well_formed_body_def bind_err_def split: sum.splits json.splits)

lemma test_graph_conversion_answered:
  assumes "console_ok" and "answered (srv (log @ [Post sparql_url sparql_query]))"
  shows "snd (test_graph_conversion console_ok srv log) = log @ [Post sparql_url sparql_query] \<and>
         fst (test_graph_conversion console_ok srv log) \<noteq> Never"
proof -
  obtain sparql_ok where "test_sparql_api console_ok srv log
           = (Returns sparql_ok, log @ [Post sparql_url sparql_query])"
    using test_sparql_api_answered [of console_ok srv log] assms by blast
  then show ?thesis using assms(1)
    by (simp add: test_graph_conversion_def and_then_def split: option.splits sum.splits)
qed

lemma test_graph_conversion_well_formed:
  assumes "console_ok" and "well_formed_reply (srv (log @ [Post sparql_url sparql_query]))"
  shows "\<not> raises (fst (test_graph_conversion console_ok srv log))"
proof -
  have "answered (srv (log @ [Post sparql_url sparql_query]))"
    using assms(2) by (auto simp: well_formed_reply_def answered_def)
  then obtain sparql_ok where api: "test_sparql_api console_ok srv log
           = (Returns sparql_ok, log @ [Post sparql_url sparql_query])"
    using test_sparql_api_answered [of console_ok srv log] assms(1) by blast
  show ?thesis
  proof (cases sparql_ok)
    case None
    then show ?thesis using api assms(1)
      by (simp add: test_graph_conversion_def and_then_def raises_def)
  next
    case (Some data)
    then obtain status_code where
      "srv (log @ [Post sparql_url sparql_query]) = Response status_code (Some data)"
      using api test_sparql_api_Some by blast
    then have "well_formed_body data" using assms(2) by (simp add: well_formed_reply_def)
    then obtain rows results where res: "subscript data ''results'' = Inr results"
      "subscript results ''bindings'' = Inr (JArr rows)" and ok: "list_all row_ok rows"
      using well_formed_body_rows by blast
    show ?thesis
      using api Some res convert_json_typed [OF ok] assms(1)
      by (simp add: test_graph_conversion_def and_then_def raises_def bind_err_def)
  qed
qed

lemma main_answered:
  assumes "console_ok"
    and "test_static_files console_ok srv log = (Returns static_ok, log @ [Get static_url])"
    and "answered (srv (log @ [Get static_url, Post sparql_url sparql_query]))"
    and "answered (srv (log @ [Get static_url, Post sparql_url sparql_query, Post sparql_url sparql_query]))"
  shows "snd (main console_ok srv log) =
           log @ [Get static_url, Post sparql_url sparql_query, Post sparql_url sparql_query]"
    and "\<exists>sparql_ok.
           fst (test_sparql_api console_ok srv (log @ [Get static_url])) = Returns sparql_ok \<and>
           fst (main console_ok srv log) =
             (case fst (test_graph_conversion console_ok srv
                          (log @ [Get static_url, Post sparql_url sparql_query])) of
                Returns conversion_ok \<Rightarrow>
                  Returns (static_ok \<and> truthy_result sparql_ok \<and> conversion_ok)
              | Raised e \<Rightarrow> Raised e
              | Never \<Rightarrow> Never)"
proof -
  obtain sparql_ok where api: "test_sparql_api console_ok srv (log @ [Get static_url])
      = (Returns sparql_ok, log @ [Get static_url, Post sparql_url sparql_query])"
    using test_sparql_api_answered [of console_ok srv "log @ [Get static_url]"] assms(1,3) by auto
  have conv: "snd (test_graph_conversion console_ok srv (log @ [Get static_url, Post sparql_url sparql_query]))
      = log @ [Get static_url, Post sparql_url sparql_query, Post sparql_url sparql_query]"
    using test_graph_conversion_answered
      [of console_ok srv "log @ [Get static_url, Post sparql_url sparql_query]"] assms(1,4)
    by simp
  obtain r l where rl: "test_graph_conversion console_ok srv
      (log @ [Get static_url, Post sparql_url sparql_query]) = (r, l)"
    by (cases "test_graph_conversion console_ok srv (log @ [Get static_url, Post sparql_url sparql_query])")
  have m: "main console_ok srv log =
      (case r of
         Returns conversion_ok \<Rightarrow> Returns (static_ok \<and> truthy_result sparql_ok \<and> conversion_ok)
       | Raised e \<Rightarrow> Raised e
       | Never \<Rightarrow> Never, l)"
    using assms(1,2) api rl
    by (simp add: main_def and_then_def split: outcome.splits)
  show "snd (main console_ok srv log) =
           log @ [Get static_url, Post sparql_url sparql_query, Post sparql_url sparql_query]"
    using m conv rl by simp
  show "\<exists>sparql_ok.
           fst (test_sparql_api console_ok srv (log @ [Get static_url])) = Returns sparql_ok \<and>
           fst (main console_ok srv log) =
             (case fst (test_graph_conversion console_ok srv
                          (log @ [Get static_url, Post sparql_url sparql_query])) of
                Returns conversion_ok \<Rightarrow>
                  Returns (static_ok \<and> truthy_result sparql_ok \<and> conversion_ok)
              | Raised e \<Rightarrow> Raised e
              | Never \<Rightarrow> Never)"
    using m api rl by simp
qed

lemma main_example:
  "main True example_server [] =
     (Returns False, [Get static_url, Post sparql_url sparql_query, Post sparql_url sparql_query])"
  "fst (test_graph_conversion True example_server [Get static_url, Post sparql_url sparql_query])
     = Returns True"
  by (simp_all add: main_def and_then_def test_static_files_def test_graph_conversion_def
      test_sparql_api_def send_def example_server_def example_body_def bind_err_def
      example_json_graph truthy_result_def)

text \<open>
  Without an answer to a POST, and without a console that can print, \<open>main\<close> does not
  return either.
\<close>

lemma main_hanging_post:
  "main True hanging_server [] = (Never, [Get static_url, Post sparql_url sparql_query])"
  by (simp add: main_def and_then_def test_static_files_def test_sparql_api_def send_def
      hanging_server_def)

lemma main_console: "main False srv log = (Raised UnicodeEncodeError, log)"
  by (simp add: main_def)

text \<open>
  C9, as the specification states it, fails: \<open>main\<close> does not always return a boolean
  after a failed GET. \<open>test_graph_conversion\<close> calls the converter outside any
  \<open>try\<close>, so when the server answers the POSTs with status 200 and a body whose
  bindings hold a \<open>null\<close> row, the \<open>AttributeError\<close> of \<open>binding.get\<close> leaves
  \<open>main\<close>.
\<close>

theorem static_failure_counterexample:
  "null_row_server [Get static_url] = Response 404 None \<and>
   test_static_files True null_row_server [] = (Returns False, [Get static_url]) \<and>
   main True null_row_server [] =
     (Raised AttributeError,
      [Get static_url, Post sparql_url sparql_query, Post sparql_url sparql_query])"
  by (simp add: main_def and_then_def test_static_files_def test_graph_conversion_def
      test_sparql_api_def send_def null_row_server_def example_body_def bind_err_def
      convert_sparql_to_graph_json_def loop_body_json_def)

text \<open>
  C9, amended. With a console that can print the script's lines: whenever the GET of the
  static file is answered, but not by a response with status 200 (another status, or an
  exception), \<open>test_static_files\<close> returns \<open>False\<close>, and when the two POSTs are
  answered too, \<open>main\<close> still runs \<open>test_sparql_api\<close> and
  \<open>test_graph_conversion\<close>, each of which sends its POST. Provided the converter does
  not raise inside \<open>test_graph_conversion\<close>, both checks return and \<open>main\<close> returns
  the conjunction of the three results, which is \<open>False\<close>; and the converter does not
  raise when the reply to that POST is an exception, a body that is no JSON, or a body
  whose \<open>results.bindings\<close> is a list of rows of the shape of a binding.
\<close>

theorem static_failure_amended:
  assumes "console_ok"
    and "answered (srv (log @ [Get static_url]))"
    and "\<forall>body. srv (log @ [Get static_url]) \<noteq> Response 200 body"
    and "answered (srv (log @ [Get static_url, Post sparql_url sparql_query]))"
    and "answered (srv (log @ [Get static_url, Post sparql_url sparql_query,
                               Post sparql_url sparql_query]))"
  shows "test_static_files console_ok srv log = (Returns False, log @ [Get static_url]) \<and>
    snd (main console_ok srv log) =
      log @ [Get static_url, Post sparql_url sparql_query, Post sparql_url sparql_query] \<and>
    (\<not> raises (fst (test_graph_conversion console_ok srv
                      (log @ [Get static_url, Post sparql_url sparql_query]))) \<longrightarrow>
       (\<exists>sparql_ok conversion_ok.
          fst (test_sparql_api console_ok srv (log @ [Get static_url])) = Returns sparql_ok \<and>
          fst (test_graph_conversion console_ok srv
                 (log @ [Get static_url, Post sparql_url sparql_query])) = Returns conversion_ok \<and>
          fst (main console_ok srv log) =
            Returns (list_all id [False, truthy_result sparql_ok, conversion_ok])) \<and>
       fst (main console_ok srv log) = Returns False) \<and>
    (well_formed_reply (srv (log @ [Get static_url, Post sparql_url sparql_query,
                                    Post sparql_url sparql_query])) \<longrightarrow>
       \<not> raises (fst (test_graph_conversion console_ok srv
                        (log @ [Get static_url, Post sparql_url sparql_query]))))"
proof -
  let ?log2 = "log @ [Get static_url, Post sparql_url sparql_query]"
  have s: "test_static_files console_ok srv log = (Returns False, log @ [Get static_url])"
    using assms(1,2,3) by (rule test_static_files_failed)
  note m = main_answered [OF assms(1) s assms(4,5)]
  obtain sparql_ok where api: "fst (test_sparql_api console_ok srv (log @ [Get static_url])) = Returns sparql_ok"
    and res: "fst (main console_ok srv log) =
             (case fst (test_graph_conversion console_ok srv ?log2) of
                Returns conversion_ok \<Rightarrow>
                  Returns (False \<and> truthy_result sparql_ok \<and> conversion_ok)
              | Raised e \<Rightarrow> Raised e
              | Never \<Rightarrow> Never)"
    using m(2) by blast
  have nn: "fst (test_graph_conversion console_ok srv ?log2) \<noteq> Never"
    using test_graph_conversion_answered [of console_ok srv ?log2] assms(1,5) by simp
  have a: "\<not> raises (fst (test_graph_conversion console_ok srv ?log2)) \<longrightarrow>
       (\<exists>sparql_ok conversion_ok.
          fst (test_sparql_api console_ok srv (log @ [Get static_url])) = Returns sparql_ok \<and>
          fst (test_graph_conversion console_ok srv ?log2) = Returns conversion_ok \<and>
          fst (main console_ok srv log) =
            Returns (list_all id [False, truthy_result sparql_ok, conversion_ok])) \<and>
       fst (main console_ok srv log) = Returns False"
    using api res nn
    by (cases "fst (test_graph_conversion console_ok srv ?log2)") (simp_all add: raises_def)
  have w: "well_formed_reply (srv (log @ [Get static_url, Post sparql_url sparql_query,
                                    Post sparql_url sparql_query])) \<longrightarrow>
       \<not> raises (fst (test_graph_conversion console_ok srv ?log2))"
    using test_graph_conversion_well_formed [of console_ok srv ?log2] assms(1) by simp
  show ?thesis using s m(1) a w by blast
qed

theorem static_failure_amended_witness:
  "test_static_files True example_server [] = (Returns False, [Get static_url]) \<and>
   snd (main True example_server []) =
     [Get static_url, Post sparql_url sparql_query, Post sparql_url sparql_query] \<and>
   well_formed_reply
     (example_server [Get static_url, Post sparql_url sparql_query, Post sparql_url sparql_query]) \<and>
   \<not> raises (fst (test_graph_conversion True example_server
                    [Get static_url, Post sparql_url sparql_query])) \<and>
   fst (main True example_server []) = Returns False"
proof -
  have h: "answered (example_server ([] @ [Get static_url]))"
    "\<forall>body. example_server ([] @ [Get static_url]) \<noteq> Response 200 body"
    "answered (example_server ([] @ [Get static_url, Post sparql_url sparql_query]))"
    "answered (example_server ([] @ [Get static_url, Post sparql_url sparql_query,
                               Post sparql_url sparql_query]))"
    by (simp_all add: example_server_def answered_def)
  have w: "well_formed_reply
     (example_server [Get static_url, Post sparql_url sparql_query, Post sparql_url sparql_query])"
    by (simp add: example_server_def well_formed_reply_def well_formed_body_def example_body_def
        example_row_def bind_err_def)
  show ?thesis using static_failure_amended [of True example_server "[]", OF TrueI h] w by simp
qed

end
